theory Spec2Isabelle
  imports Main "HOL-Library.Product_Lexorder"
begin

section \<open>Python strings\<close>

text \<open>
  A Python \<open>str\<close> is modelled as a \<open>string\<close> whose characters are code points below 256
  (one \<open>char\<close> per code point). On that range the line boundaries of \<open>str.splitlines\<close>,
  the white space of \<open>str.strip\<close> and the digits of \<open>int\<close> are the ones listed below.
\<close>

definition LF :: char where "LF = CHR 0x0A"
definition CR :: char where "CR = CHR 0x0D"

definition is_linebreak :: "char \<Rightarrow> bool" where
  "is_linebreak c \<longleftrightarrow>
     c \<in> {CHR 0x0A, CHR 0x0B, CHR 0x0C, CHR 0x0D, CHR 0x1C, CHR 0x1D, CHR 0x1E, CHR 0x85}"

definition is_space :: "char \<Rightarrow> bool" where
  "is_space c \<longleftrightarrow>
     c \<in> {CHR 0x09, CHR 0x0A, CHR 0x0B, CHR 0x0C, CHR 0x0D, CHR 0x1C, CHR 0x1D, CHR 0x1E,
          CHR 0x1F, CHR 0x20, CHR 0x85, CHR 0xA0}"

text \<open>\<open>str.splitlines()\<close>: the line being collected and the rest of the text. A carriage
  return followed by a line feed is one boundary; text that ends at a boundary has no
  further (empty) line.\<close>

fun split_lines :: "string \<Rightarrow> string \<Rightarrow> string list" where
  "split_lines cur [] = (if cur = [] then [] else [cur])"
| "split_lines cur [c] = (if is_linebreak c then [cur] else [cur @ [c]])"
| "split_lines cur (c # d # ds) =
     (if c = CR \<and> d = LF then cur # split_lines [] ds
      else if is_linebreak c then cur # split_lines [] (d # ds)
      else split_lines (cur @ [c]) (d # ds))"

definition splitlines :: "string \<Rightarrow> string list" where
  "splitlines s = split_lines [] s"

text \<open>\<open>str.split(sep)\<close> for a one-character separator: always at least one part.\<close>

fun split_on :: "char \<Rightarrow> string \<Rightarrow> string \<Rightarrow> string list" where
  "split_on sep cur [] = [cur]"
| "split_on sep cur (c # cs) =
     (if c = sep then cur # split_on sep [] cs else split_on sep (cur @ [c]) cs)"

definition split_comma :: "string \<Rightarrow> string list" where
  "split_comma s = split_on (CHR '','') [] s"

definition strip :: "string \<Rightarrow> string" where
  "strip s = rev (dropWhile is_space (rev (dropWhile is_space s)))"

text \<open>\<open>int(s)\<close> in base 10: white space around, an optional sign, then digits in which
  single underscores may stand between two digits. \<open>None\<close> is the \<open>ValueError\<close>. (The
  limit that recent interpreters put on the number of digits is left out.)\<close>

definition digit_val :: "char \<Rightarrow> nat option" where
  "digit_val c =
     (let n = (of_char c :: nat) in if 48 \<le> n \<and> n \<le> 57 then Some (n - 48) else None)"

fun more_digits :: "nat \<Rightarrow> string \<Rightarrow> nat option" where
  "more_digits acc [] = Some acc"
| "more_digits acc [c] =
     (case digit_val c of None \<Rightarrow> None | Some v \<Rightarrow> Some (10 * acc + v))"
| "more_digits acc (c # d # ds) =
     (if c = CHR ''_'' then
        (case digit_val d of None \<Rightarrow> None | Some v \<Rightarrow> more_digits (10 * acc + v) ds)
      else
        (case digit_val c of None \<Rightarrow> None | Some v \<Rightarrow> more_digits (10 * acc + v) (d # ds)))"

definition int_literal :: "string \<Rightarrow> nat option" where
  "int_literal s =
     (case s of [] \<Rightarrow> None
      | c # cs \<Rightarrow> (case digit_val c of None \<Rightarrow> None | Some v \<Rightarrow> more_digits v cs))"

definition py_int :: "string \<Rightarrow> int option" where
  "py_int s =
     (case strip s of [] \<Rightarrow> None
      | c # cs \<Rightarrow>
          if c = CHR ''-'' then map_option (\<lambda>n. - int n) (int_literal cs)
          else if c = CHR ''+'' then map_option int (int_literal cs)
          else map_option int (int_literal (c # cs)))"

text \<open>\<open>sep.join(xs)\<close>.\<close>

fun join :: "string \<Rightarrow> string list \<Rightarrow> string" where
  "join sep [] = []"
| "join sep [x] = x"
| "join sep (x # y # ys) = x @ sep @ join sep (y # ys)"

text \<open>\<open>fp.readlines()\<close> on a file opened in text mode: each line keeps its end, and the
  ends \<open>\r\n\<close> and \<open>\r\<close> are read as \<open>\n\<close> (universal newlines).\<close>

fun read_lines :: "string \<Rightarrow> string \<Rightarrow> string list" where
  "read_lines cur [] = (if cur = [] then [] else [cur])"
| "read_lines cur [c] = (if c = LF \<or> c = CR then [cur @ [LF]] else [cur @ [c]])"
| "read_lines cur (c # d # ds) =
     (if c = CR \<and> d = LF then (cur @ [LF]) # read_lines [] ds
      else if c = LF \<or> c = CR then (cur @ [LF]) # read_lines [] (d # ds)
      else read_lines (cur @ [c]) (d # ds))"

definition readlines :: "string \<Rightarrow> string list" where
  "readlines s = read_lines [] s"

section \<open>Data model\<close>

datatype error =
    IndexError
  | KeyError string
  | ValueError string
  | TypeError
  | NotImplementedError

text \<open>The date of a session, at calendar granularity: a \<open>datetime.datetime\<close> at midnight,
  as \<open>curr_date_as_datetime\<close> and the module's own call make it. Dates compare as Python
  compares them: by year, month, day. A plain \<open>datetime.date\<close>, which the annotations of
  the module also allow, has the same three fields; that the JSON encoder refuses it is
  not part of this record.\<close>

record pydate =
  year :: nat
  month :: nat
  day :: nat

definition date_key :: "pydate \<Rightarrow> nat \<times> nat \<times> nat" where
  "date_key d = (year d, month d, day d)"

text \<open>The values a route field holds: labels and scores.\<close>

datatype pyval = PInt int | PStr string

text \<open>A route record as the constructor receives it: a tuple, a mapping (its items),
  or anything else.\<close>

datatype route_rec =
    RecTuple "pyval list"
  | RecDict "(string \<times> pyval) list"
  | RecOther

record Route =
  index :: nat
  grade :: pyval
  type :: pyval
  perf :: pyval

text \<open>A Session object. \<open>ident\<close> is the identity of the object (\<open>id(self)\<close>): the class
  defines no \<open>__eq__\<close>, so \<open>==\<close> on Sessions is Python's default, identity.\<close>

record Session =
  ident :: nat
  date :: pydate
  routes :: "Route list"

definition session_eq :: "Session \<Rightarrow> Session \<Rightarrow> bool" where
  "session_eq a b \<longleftrightarrow> ident a = ident b"

text \<open>The serialized content of a Session: its date and its ordered routes.\<close>

definition content :: "Session \<Rightarrow> pydate \<times> Route list" where
  "content s = (date s, routes s)"

record TrainingLog =
  sessions :: "Session list"

text \<open>What \<open>to_json\<close> hands to \<open>json.dumps\<close> and what \<open>json_util.loads\<close> hands to the
  constructor as keyword arguments: a date and a list of mappings.\<close>

record session_doc =
  doc_date :: "pydate option"
  doc_routes :: "route_rec list"

text \<open>The libraries the module calls: the JSON encoder (\<open>json.dumps\<close> with
  \<open>json_util.default\<close>), the decoder (\<open>json_util.loads\<close>, failing on text that is not a
  session document) and the clock (\<open>datetime.date.today()\<close>). They are not code of the
  module, so every operation takes them as a parameter, and what a property needs of
  them is a hypothesis of that property.\<close>

record lib =
  dumps :: "session_doc \<Rightarrow> string"
  loads :: "string \<Rightarrow> error + session_doc"
  today :: pydate

text \<open>What the process acts on: the files by path, the lines the logger has emitted at
  level INFO, and the identity the next new object gets. Directories and permissions are
  not part of it: opening a path for writing always succeeds.\<close>

record world =
  files :: "string \<rightharpoonup> string"
  log_lines :: "string list"
  next_ident :: nat

definition info :: "string \<Rightarrow> world \<Rightarrow> world" where
  "info m w = w\<lparr>log_lines := log_lines w @ [m]\<rparr>"

definition STORAGE_FILE_LOC :: string where
  "STORAGE_FILE_LOC = ''sessions/current.json''"

definition OLD_FILE_FORMAT :: "string \<Rightarrow> string" where
  "OLD_FILE_FORMAT d = ''sessions/old/result_'' @ d @ ''.json''"

definition dec_digit :: "nat \<Rightarrow> char" where
  "dec_digit n = char_of (48 + n mod 10)"

text \<open>\<open>strftime('%Y-%m-%d')\<close>: four digits of year, two of month, two of day (for years
  below 1000 the C library decides whether the year is padded; here it is).\<close>

definition strftime :: "pydate \<Rightarrow> string" where
  "strftime d =
     [dec_digit (year d div 1000), dec_digit (year d div 100), dec_digit (year d div 10),
      dec_digit (year d), CHR ''-'', dec_digit (month d div 10), dec_digit (month d),
      CHR ''-'', dec_digit (day d div 10), dec_digit (day d)]"

section \<open>Session\<close>

definition create_route :: "nat \<Rightarrow> route_rec \<Rightarrow> error + Route" where
  "create_route idx rec =
     (case rec of
        RecDict d \<Rightarrow>
          (case map_of d ''grade'' of None \<Rightarrow> Inl (KeyError ''grade'')
           | Some g \<Rightarrow>
              (case map_of d ''type'' of None \<Rightarrow> Inl (KeyError ''type'')
               | Some t \<Rightarrow>
                  (case map_of d ''perf'' of None \<Rightarrow> Inl (KeyError ''perf'')
                   | Some p \<Rightarrow> Inr \<lparr>index = idx, grade = g, type = t, perf = p\<rparr>)))
      | RecTuple xs \<Rightarrow>
          (if length xs < 3 then Inl IndexError
           else Inr \<lparr>index = idx, grade = xs ! 0, type = xs ! 1, perf = xs ! 2\<rparr>)
      | RecOther \<Rightarrow> Inl NotImplementedError)"

text \<open>The comprehension over \<open>enumerate(routes)\<close>, from position \<open>i\<close> on.\<close>

fun create_routes :: "nat \<Rightarrow> route_rec list \<Rightarrow> error + Route list" where
  "create_routes i [] = Inr []"
| "create_routes i (r # rs) =
     (case create_route i r of Inl e \<Rightarrow> Inl e
      | Inr x \<Rightarrow> (case create_routes (Suc i) rs of Inl e \<Rightarrow> Inl e | Inr xs \<Rightarrow> Inr (x # xs)))"

text \<open>\<open>Session.__init__\<close>: a date is never falsy, so \<open>date or curr_date_as_datetime()\<close>
  is the date when one is given and today otherwise.\<close>

definition Session_init ::
  "lib \<Rightarrow> route_rec list \<Rightarrow> pydate option \<Rightarrow> world \<Rightarrow> error + (Session \<times> world)" where
  "Session_init L recs d w =
     (let dt = (case d of Some x \<Rightarrow> x | None \<Rightarrow> today L) in
      case create_routes 0 recs of Inl e \<Rightarrow> Inl e
      | Inr rs \<Rightarrow>
          Inr (\<lparr>ident = next_ident w, date = dt, routes = rs\<rparr>,
               w\<lparr>next_ident := Suc (next_ident w)\<rparr>))"

definition route_dict :: "Route \<Rightarrow> (string \<times> pyval) list" where
  "route_dict r =
     [(''idx'', PInt (int (index r))), (''grade'', grade r), (''type'', type r),
      (''perf'', perf r)]"

text \<open>The dictionary that \<open>to_json\<close> builds and passes to \<open>json.dumps\<close>.\<close>

definition to_json_doc :: "Session \<Rightarrow> session_doc" where
  "to_json_doc s =
     \<lparr>doc_date = Some (date s),
      doc_routes = map (\<lambda>route. RecDict (route_dict route)) (routes s)\<rparr>"

definition to_json :: "lib \<Rightarrow> Session \<Rightarrow> string" where
  "to_json L s = dumps L (to_json_doc s)"

definition from_json :: "lib \<Rightarrow> string \<Rightarrow> world \<Rightarrow> error + (Session \<times> world)" where
  "from_json L json_str w =
     (case loads L json_str of Inl e \<Rightarrow> Inl e
      | Inr doc \<Rightarrow> Session_init L (doc_routes doc) (doc_date doc) w)"

text \<open>The body of the loop of \<open>from_csv_str\<close> for one line: \<open>parts[1]\<close> and \<open>parts[2]\<close>
  raise \<open>IndexError\<close> when the line has fewer parts, \<open>int\<close> raises \<open>ValueError\<close> with the
  text it was given.\<close>

definition route_of_line :: "string \<Rightarrow> error + route_rec" where
  "route_of_line route_line =
     (let parts = split_comma route_line in
      if length parts < 2 then Inl IndexError
      else if length parts < 3 then Inl IndexError
      else (case py_int (strip (parts ! 2)) of
              None \<Rightarrow> Inl (ValueError (strip (parts ! 2)))
            | Some n \<Rightarrow>
                Inr (RecTuple [PStr (strip (parts ! 0)), PStr (strip (parts ! 1)), PInt n])))"

fun routes_of_lines :: "string list \<Rightarrow> error + route_rec list" where
  "routes_of_lines [] = Inr []"
| "routes_of_lines (l # ls) =
     (case route_of_line l of Inl e \<Rightarrow> Inl e
      | Inr r \<Rightarrow> (case routes_of_lines ls of Inl e \<Rightarrow> Inl e | Inr rs \<Rightarrow> Inr (r # rs)))"

definition from_csv_str ::
  "lib \<Rightarrow> string \<Rightarrow> pydate option \<Rightarrow> world \<Rightarrow> error + (Session \<times> world)" where
  "from_csv_str L csv_str d w =
     (case routes_of_lines (splitlines csv_str) of Inl e \<Rightarrow> Inl e
      | Inr recs \<Rightarrow> Session_init L recs d w)"

section \<open>TrainingLog\<close>

text \<open>The comprehension of \<open>load\<close>: one \<open>from_json\<close> per line, in file order.\<close>

fun from_json_lines ::
  "lib \<Rightarrow> string list \<Rightarrow> world \<Rightarrow> error + (Session list \<times> world)" where
  "from_json_lines L [] w = Inr ([], w)"
| "from_json_lines L (l # ls) w =
     (case from_json L l w of Inl e \<Rightarrow> Inl e
      | Inr (s, w1) \<Rightarrow>
          (case from_json_lines L ls w1 of Inl e \<Rightarrow> Inl e
           | Inr (ss, w2) \<Rightarrow> Inr (s # ss, w2)))"

definition load :: "lib \<Rightarrow> world \<Rightarrow> error + (TrainingLog \<times> world)" where
  "load L w =
     (let w1 = info ''Loading TrainingLog from file'' w in
      case files w1 STORAGE_FILE_LOC of
        None \<Rightarrow> Inr (\<lparr>sessions = []\<rparr>, w1)
      | Some text \<Rightarrow>
          (case from_json_lines L (readlines text) w1 of Inl e \<Rightarrow> Inl e
           | Inr (ss, w2) \<Rightarrow> Inr (\<lparr>sessions = ss\<rparr>, w2)))"

definition dump_jsons :: "lib \<Rightarrow> TrainingLog \<Rightarrow> string" where
  "dump_jsons L log = join [LF] (map (to_json L) (sessions log))"

definition update_file :: "lib \<Rightarrow> TrainingLog \<Rightarrow> string \<Rightarrow> world \<Rightarrow> world" where
  "update_file L log file w =
     (let w1 = (if files w file \<noteq> None then w\<lparr>files := (files w)(file := None)\<rparr> else w)
      in w1\<lparr>files := (files w1)(file \<mapsto> dump_jsons L log)\<rparr>)"

text \<open>\<open>write\<close>: \<open>sorted(...)[-1]\<close> raises \<open>IndexError\<close> on an empty list.\<close>

definition "write" :: "lib \<Rightarrow> TrainingLog \<Rightarrow> world \<Rightarrow> error + world" where
  "write L log w =
     (case sort_key (\<lambda>session. date_key (date session)) (sessions log) of
        [] \<Rightarrow> Inl IndexError
      | x # xs \<Rightarrow>
          (let latest_session = last (x # xs);
               w1 = info ''type: <class '__main__.Session'>'' w;
               latest_date = date latest_session;
               w2 = update_file L log (OLD_FILE_FORMAT (strftime latest_date)) w1
           in Inr (update_file L log STORAGE_FILE_LOC w2)))"

definition update_from_csv_str ::
  "lib \<Rightarrow> string \<Rightarrow> pydate option \<Rightarrow> world \<Rightarrow> error + world" where
  "update_from_csv_str L csv_str d w =
     (let w0 = info ''Loading'' w in
      case load L w0 of Inl e \<Rightarrow> Inl e
      | Inr (log, w1) \<Rightarrow>
          (case from_csv_str L csv_str d w1 of Inl e \<Rightarrow> Inl e
           | Inr (new_session, w2) \<Rightarrow>
               (let w3 = (if length (sessions log) \<noteq> 0
                          then (if session_eq new_session (last (sessions log))
                                then info ''Skipping write, looks like a dupe last entry'' w2
                                else w2)
                          else w2);
                    w4 = info ''Updating and writing'' w3
                in write L (log\<lparr>sessions := sessions log @ [new_session]\<rparr>) w4)))"

section \<open>A JSON codec\<close>

text \<open>
  Modelled from the spec: the JSON text codec (\<open>json.dumps\<close> with \<open>json_util.default\<close>,
  and \<open>json_util.loads\<close>), which belongs to libraries and not to the module. It writes a
  session as \<open>{"date": <date>, "routes": [{"idx": .., "grade": .., "type": .., "perf": ..},
  ...]}\<close> on one line, with \<open>json.dumps\<close>'s separators and string escapes and an ISO date,
  and reads JSON text back. The operations of the module take their codec as the
  parameter \<open>lib\<close>; this one is the instance the concrete examples run on.
\<close>

definition DQ :: char where "DQ = CHR 0x22"
definition BS :: char where "BS = CHR 0x5C"

datatype json = JNull | JInt int | JStr string | JArr "json list" | JObj "(string \<times> json) list"

fun dec_string :: "nat \<Rightarrow> string" where
  "dec_string n = (if n < 10 then [dec_digit n] else dec_string (n div 10) @ [dec_digit n])"

definition hex_digit :: "nat \<Rightarrow> char" where
  "hex_digit n = (if n < 10 then char_of (48 + n) else char_of (87 + n))"

definition escape_char :: "char \<Rightarrow> string" where
  "escape_char c =
     (let n = (of_char c :: nat) in
      if c = DQ then [BS, DQ]
      else if c = BS then [BS, BS]
      else if c = LF then [BS, CHR ''n'']
      else if c = CR then [BS, CHR ''r'']
      else if c = CHR 0x09 then [BS, CHR ''t'']
      else if c = CHR 0x08 then [BS, CHR ''b'']
      else if c = CHR 0x0C then [BS, CHR ''f'']
      else if n < 32 \<or> 126 < n
        then [BS, CHR ''u'', CHR ''0'', CHR ''0'', hex_digit (n div 16), hex_digit (n mod 16)]
      else [c])"

definition str_text :: "string \<Rightarrow> string" where
  "str_text s = DQ # concat (map escape_char s) @ [DQ]"

definition int_text :: "int \<Rightarrow> string" where
  "int_text i = (if i < 0 then CHR ''-'' # dec_string (nat (- i)) else dec_string (nat i))"

fun json_text :: "json \<Rightarrow> string" where
  "json_text JNull = ''null''"
| "json_text (JInt i) = int_text i"
| "json_text (JStr s) = str_text s"
| "json_text (JArr vs) = ''['' @ join '', '' (map json_text vs) @ '']''"
| "json_text (JObj kvs) =
     ''{'' @ join '', '' (map (\<lambda>kv. str_text (fst kv) @ '': '' @ json_text (snd kv)) kvs) @ ''}''"

datatype token =
    TLBrace | TRBrace | TLBrack | TRBrack | TColon | TComma
  | TStr string | TInt int | TNull

datatype lex_mode =
    Plain
  | InStr string
  | InEsc string
  | InUni string nat nat
  | InMinus
  | InNum bool nat
  | InWord string
  | Bad

definition hex_val :: "char \<Rightarrow> nat option" where
  "hex_val c =
     (let n = (of_char c :: nat) in
      if 48 \<le> n \<and> n \<le> 57 then Some (n - 48)
      else if 97 \<le> n \<and> n \<le> 102 then Some (n - 87)
      else if 65 \<le> n \<and> n \<le> 70 then Some (n - 55)
      else None)"

definition lex_plain :: "token list \<Rightarrow> char \<Rightarrow> token list \<times> lex_mode" where
  "lex_plain ts c =
     (if c = CHR ''{'' then (ts @ [TLBrace], Plain)
      else if c = CHR ''}'' then (ts @ [TRBrace], Plain)
      else if c = CHR ''['' then (ts @ [TLBrack], Plain)
      else if c = CHR '']'' then (ts @ [TRBrack], Plain)
      else if c = CHR '':'' then (ts @ [TColon], Plain)
      else if c = CHR '','' then (ts @ [TComma], Plain)
      else if c = DQ then (ts, InStr [])
      else if c = CHR ''-'' then (ts, InMinus)
      else if c = CHR ''n'' then (ts, InWord [c])
      else if c = CHR '' '' \<or> c = CHR 0x09 \<or> c = LF \<or> c = CR then (ts, Plain)
      else (case digit_val c of Some d \<Rightarrow> (ts, InNum False d) | None \<Rightarrow> (ts, Bad)))"

fun lex_step :: "token list \<times> lex_mode \<Rightarrow> char \<Rightarrow> token list \<times> lex_mode" where
  "lex_step (ts, Plain) c = lex_plain ts c"
| "lex_step (ts, InStr acc) c =
     (if c = DQ then (ts @ [TStr acc], Plain)
      else if c = BS then (ts, InEsc acc)
      else if (of_char c :: nat) < 32 then (ts, Bad)
      else (ts, InStr (acc @ [c])))"
| "lex_step (ts, InEsc acc) c =
     (if c = DQ \<or> c = BS \<or> c = CHR ''/'' then (ts, InStr (acc @ [c]))
      else if c = CHR ''n'' then (ts, InStr (acc @ [LF]))
      else if c = CHR ''r'' then (ts, InStr (acc @ [CR]))
      else if c = CHR ''t'' then (ts, InStr (acc @ [CHR 0x09]))
      else if c = CHR ''b'' then (ts, InStr (acc @ [CHR 0x08]))
      else if c = CHR ''f'' then (ts, InStr (acc @ [CHR 0x0C]))
      else if c = CHR ''u'' then (ts, InUni acc 4 0)
      else (ts, Bad))"
| "lex_step (ts, InUni acc k v) c =
     (case hex_val c of None \<Rightarrow> (ts, Bad)
      | Some h \<Rightarrow>
          if k = 1 then (if 16 * v + h < 256 then (ts, InStr (acc @ [char_of (16 * v + h)]))
                        else (ts, Bad))
          else (ts, InUni acc (k - 1) (16 * v + h)))"
| "lex_step (ts, InMinus) c =
     (case digit_val c of None \<Rightarrow> (ts, Bad) | Some d \<Rightarrow> (ts, InNum True d))"
| "lex_step (ts, InNum neg v) c =
     (case digit_val c of
        Some d \<Rightarrow> (ts, InNum neg (10 * v + d))
      | None \<Rightarrow> lex_plain (ts @ [TInt (if neg then - int v else int v)]) c)"
| "lex_step (ts, InWord w) c =
     (if w @ [c] = ''null'' then (ts @ [TNull], Plain)
      else if w @ [c] = ''nu'' \<or> w @ [c] = ''nul'' then (ts, InWord (w @ [c]))
      else (ts, Bad))"
| "lex_step (ts, Bad) c = (ts, Bad)"

definition tokenize :: "string \<Rightarrow> token list option" where
  "tokenize s =
     (case foldl lex_step ([], Plain) s of
        (ts, Plain) \<Rightarrow> Some ts
      | (ts, InNum neg v) \<Rightarrow> Some (ts @ [TInt (if neg then - int v else int v)])
      | _ \<Rightarrow> None)"

fun parse_value :: "nat \<Rightarrow> token list \<Rightarrow> (json \<times> token list) option"
  and parse_elems :: "nat \<Rightarrow> token list \<Rightarrow> (json list \<times> token list) option"
  and parse_members :: "nat \<Rightarrow> token list \<Rightarrow> ((string \<times> json) list \<times> token list) option"
where
  "parse_value 0 ts = None"
| "parse_value (Suc n) ts =
     (case ts of
        TNull # r \<Rightarrow> Some (JNull, r)
      | TInt i # r \<Rightarrow> Some (JInt i, r)
      | TStr s # r \<Rightarrow> Some (JStr s, r)
      | TLBrack # TRBrack # r \<Rightarrow> Some (JArr [], r)
      | TLBrack # r \<Rightarrow>
          (case parse_elems n r of None \<Rightarrow> None | Some (vs, r') \<Rightarrow> Some (JArr vs, r'))
      | TLBrace # TRBrace # r \<Rightarrow> Some (JObj [], r)
      | TLBrace # r \<Rightarrow>
          (case parse_members n r of None \<Rightarrow> None | Some (kvs, r') \<Rightarrow> Some (JObj kvs, r'))
      | _ \<Rightarrow> None)"
| "parse_elems 0 ts = None"
| "parse_elems (Suc n) ts =
     (case parse_value n ts of
        Some (v, TComma # r) \<Rightarrow>
          (case parse_elems n r of None \<Rightarrow> None | Some (vs, r') \<Rightarrow> Some (v # vs, r'))
      | Some (v, TRBrack # r) \<Rightarrow> Some ([v], r)
      | _ \<Rightarrow> None)"
| "parse_members 0 ts = None"
| "parse_members (Suc n) ts =
     (case ts of
        TStr k # TColon # r \<Rightarrow>
          (case parse_value n r of
             Some (v, TComma # r') \<Rightarrow>
               (case parse_members n r' of None \<Rightarrow> None
                | Some (kvs, r'') \<Rightarrow> Some ((k, v) # kvs, r''))
           | Some (v, TRBrace # r') \<Rightarrow> Some ([(k, v)], r')
           | _ \<Rightarrow> None)
      | _ \<Rightarrow> None)"

definition parse_json :: "string \<Rightarrow> json option" where
  "parse_json s =
     (case tokenize s of None \<Rightarrow> None
      | Some ts \<Rightarrow>
          (case parse_value (Suc (length ts)) ts of Some (v, []) \<Rightarrow> Some v | _ \<Rightarrow> None))"

definition json_of_val :: "pyval \<Rightarrow> json" where
  "json_of_val v = (case v of PInt i \<Rightarrow> JInt i | PStr s \<Rightarrow> JStr s)"

definition json_of_rec :: "route_rec \<Rightarrow> json" where
  "json_of_rec r =
     (case r of
        RecDict kvs \<Rightarrow> JObj (map (\<lambda>kv. (fst kv, json_of_val (snd kv))) kvs)
      | RecTuple xs \<Rightarrow> JArr (map json_of_val xs)
      | RecOther \<Rightarrow> JNull)"

definition json_of_date :: "pydate option \<Rightarrow> json" where
  "json_of_date d =
     (case d of None \<Rightarrow> JNull
      | Some x \<Rightarrow> JObj [(''$date'', JStr (strftime x @ ''T00:00:00Z''))])"

definition json_of_doc :: "session_doc \<Rightarrow> json" where
  "json_of_doc doc =
     JObj [(''date'', json_of_date (doc_date doc)),
           (''routes'', JArr (map json_of_rec (doc_routes doc)))]"

definition digits_val :: "string \<Rightarrow> nat option" where
  "digits_val s =
     (if s \<noteq> [] \<and> list_all (\<lambda>c. digit_val c \<noteq> None) s
      then Some (foldl (\<lambda>acc c. 10 * acc + the (digit_val c)) 0 s) else None)"

definition iso_date :: "string \<Rightarrow> pydate option" where
  "iso_date s =
     (if length s = 20 \<and> s ! 4 = CHR ''-'' \<and> s ! 7 = CHR ''-'' \<and> drop 10 s = ''T00:00:00Z''
      then (case (digits_val (take 4 s), digits_val (take 2 (drop 5 s)),
                  digits_val (take 2 (drop 8 s))) of
              (Some y, Some m, Some d) \<Rightarrow> Some \<lparr>year = y, month = m, day = d\<rparr>
            | _ \<Rightarrow> None)
      else None)"

definition date_of_json :: "json \<Rightarrow> pydate option option" where
  "date_of_json j =
     (case j of
        JNull \<Rightarrow> Some None
      | JObj [(k, JStr s)] \<Rightarrow> (if k = ''$date'' then map_option Some (iso_date s) else None)
      | _ \<Rightarrow> None)"

definition val_of_json :: "json \<Rightarrow> pyval option" where
  "val_of_json j = (case j of JInt i \<Rightarrow> Some (PInt i) | JStr s \<Rightarrow> Some (PStr s) | _ \<Rightarrow> None)"

definition rec_of_json :: "json \<Rightarrow> route_rec option" where
  "rec_of_json j =
     (case j of
        JObj kvs \<Rightarrow>
          map_option RecDict
            (those (map (\<lambda>kv. map_option (Pair (fst kv)) (val_of_json (snd kv))) kvs))
      | _ \<Rightarrow> Some RecOther)"

definition doc_of_json :: "json \<Rightarrow> error + session_doc" where
  "doc_of_json j =
     (case j of
        JObj kvs \<Rightarrow>
          (if \<not> list_all (\<lambda>kv. fst kv = ''date'' \<or> fst kv = ''routes'') kvs then Inl TypeError
           else (case (map_of (rev kvs) ''date'', map_of (rev kvs) ''routes'') of
                   (Some dj, Some (JArr vs)) \<Rightarrow>
                     (case (date_of_json dj, those (map rec_of_json vs)) of
                        (Some d, Some rs) \<Rightarrow> Inr \<lparr>doc_date = d, doc_routes = rs\<rparr>
                      | _ \<Rightarrow> Inl TypeError)
                 | _ \<Rightarrow> Inl TypeError))
      | _ \<Rightarrow> Inl TypeError)"

definition json_dumps :: "session_doc \<Rightarrow> string" where
  "json_dumps doc = json_text (json_of_doc doc)"

definition json_loads :: "string \<Rightarrow> error + session_doc" where
  "json_loads s =
     (case parse_json s of None \<Rightarrow> Inl (ValueError ''JSONDecodeError'')
      | Some j \<Rightarrow> doc_of_json j)"

definition json_lib :: "pydate \<Rightarrow> lib" where
  "json_lib t = \<lparr>dumps = json_dumps, loads = json_loads, today = t\<rparr>"

section \<open>Predicates and examples\<close>

text \<open>The records \<open>create_route\<close> accepts: a mapping with the keys \<open>grade\<close>, \<open>type\<close>
  and \<open>perf\<close>, or a tuple of at least three items.\<close>

definition supported_rec :: "route_rec \<Rightarrow> bool" where
  "supported_rec r =
     (case r of
        RecDict d \<Rightarrow> map_of d ''grade'' \<noteq> None \<and> map_of d ''type'' \<noteq> None \<and> map_of d ''perf'' \<noteq> None
      | RecTuple xs \<Rightarrow> 3 \<le> length xs
      | RecOther \<Rightarrow> False)"

text \<open>The session \<open>write\<close> takes its date from: the last of the sessions sorted by date.\<close>

definition latest_session :: "TrainingLog \<Rightarrow> Session" where
  "latest_session log = last (sort_key (\<lambda>session. date_key (date session)) (sessions log))"

definition example_date :: pydate where
  "example_date = \<lparr>year = 2019, month = 7, day = 14\<rparr>"

definition example_lib :: lib where
  "example_lib = json_lib \<lparr>year = 2026, month = 1, day = 2\<rparr>"

definition example_world :: world where
  "example_world = \<lparr>files = Map.empty, log_lines = [], next_ident = 0\<rparr>"

definition example_recs :: "route_rec list" where
  "example_recs =
     [RecTuple [PStr ''5.10a'', PStr ''lead'', PInt 5],
      RecDict [(''idx'', PInt 7), (''grade'', PStr ''5.11d''), (''type'', PStr ''TR''),
               (''perf'', PInt 0)]]"

definition example_session :: Session where
  "example_session =
     \<lparr>ident = 0, date = example_date,
      routes = [\<lparr>index = 0, grade = PStr ''5.10a'', type = PStr ''lead'', perf = PInt 5\<rparr>]\<rparr>"

definition earlier_session :: Session where
  "earlier_session =
     \<lparr>ident = 1, date = \<lparr>year = 2019, month = 7, day = 1\<rparr>,
      routes = [\<lparr>index = 0, grade = PStr ''5.9'', type = PStr ''TR'', perf = PInt 4\<rparr>]\<rparr>"


text \<open>Inputs for the examples.\<close>

definition one_route_csv :: string where
  "one_route_csv = ''5.10a, lead, 5''"

definition one_route_recs :: "route_rec list" where
  "one_route_recs = [RecTuple [PStr ''5.10a'', PStr ''lead'', PInt 5]]"



definition journal_world :: world where
  "journal_world =
     \<lparr>files = [STORAGE_FILE_LOC \<mapsto> to_json example_lib example_session],
      log_lines = [], next_ident = 0\<rparr>"



text \<open>The invariant of the constructor: the index of each route is its position.\<close>

definition indexed_by_position :: "Session \<Rightarrow> bool" where
  "indexed_by_position s \<longleftrightarrow> map index (routes s) = [0..<length (routes s)]"

text \<open>What the round trips need of the codec on one document: the text it writes is not
  empty and has no line end in it, and the decoder reads it back, with or without a
  line feed after it.\<close>

definition codec_ok :: "lib \<Rightarrow> session_doc \<Rightarrow> bool" where
  "codec_ok L doc \<longleftrightarrow>
     dumps L doc \<noteq> [] \<and> LF \<notin> set (dumps L doc) \<and> CR \<notin> set (dumps L doc)
     \<and> loads L (dumps L doc) = Inr doc \<and> loads L (dumps L doc @ [LF]) = Inr doc"

text \<open>The lines of a file that holds the given texts joined by line feeds, and the
  sessions that reading them back makes: the same content in new objects.\<close>

fun file_lines :: "string list \<Rightarrow> string list" where
  "file_lines [] = []"
| "file_lines [x] = [x]"
| "file_lines (x # y # ys) = (x @ [LF]) # file_lines (y # ys)"

fun reloaded :: "nat \<Rightarrow> Session list \<Rightarrow> Session list" where
  "reloaded n [] = []"
| "reloaded n (s # ss) = s\<lparr>ident := n\<rparr> # reloaded (Suc n) ss"

section \<open>Properties\<close>

subsection \<open>Construction\<close>

lemma create_routes_index:
  "create_routes i recs = Inr rs \<Longrightarrow> map index rs = [i..<i + length recs]"
proof (induction recs arbitrary: i rs)
  case Nil
  then show ?case by simp
next
  case (Cons r recs)
  from Cons.prems obtain x xs where
    x: "create_route i r = Inr x" and xs: "create_routes (Suc i) recs = Inr xs"
    and rs: "rs = x # xs"
    by (auto split: sum.splits)
  have "index x = i"
    using x by (auto simp: create_route_def split: route_rec.splits option.splits if_splits)
  moreover have "map index xs = [Suc i..<Suc i + length recs]"
    using Cons.IH [OF xs] .
  ultimately show ?case
    using rs by (simp add: upt_rec)
qed

lemma create_route_supported:
  "supported_rec r \<Longrightarrow> \<exists>x. create_route i r = Inr x"
  by (auto simp: supported_rec_def create_route_def split: route_rec.splits)

lemma create_routes_supported:
  "list_all supported_rec recs \<Longrightarrow> \<exists>rs. create_routes i recs = Inr rs"
proof (induction recs arbitrary: i)
  case Nil
  then show ?case by simp
next
  case (Cons r recs)
  then obtain x where x: "create_route i r = Inr x"
    using create_route_supported [of r i] by auto
  from Cons obtain xs where "create_routes (Suc i) recs = Inr xs" by fastforce
  with x show ?case by simp
qed

text \<open>
  Claim C7 (positional indexing). A sequence of supported route records, tuples or
  mappings, always makes a Session, and the routes of any Session the constructor makes
  have the indices \<open>0, ..., N - 1\<close> in input order: the index comes from the position
  alone, never from an \<open>idx\<close> entry of a mapping.
\<close>

theorem positional_indexing:
  "(list_all supported_rec recs \<longrightarrow> (\<exists>s w'. Session_init L recs d w = Inr (s, w')))
   \<and> (\<forall>s w'. Session_init L recs d w = Inr (s, w') \<longrightarrow>
         map index (routes s) = [0..<length recs])"
proof (intro conjI impI allI)
  assume "list_all supported_rec recs"
  then obtain rs where "create_routes 0 recs = Inr rs"
    using create_routes_supported by blast
  then show "\<exists>s w'. Session_init L recs d w = Inr (s, w')"
    by (simp add: Session_init_def)
next
  fix s w'
  assume "Session_init L recs d w = Inr (s, w')"
  then obtain rs where rs: "create_routes 0 recs = Inr rs" and s: "routes s = rs"
    by (auto simp: Session_init_def Let_def split: sum.splits)
  from create_routes_index [OF rs] s show "map index (routes s) = [0..<length recs]"
    by simp
qed

theorem positional_indexing_witness:
  "list_all supported_rec example_recs
   \<and> (\<exists>s w'. Session_init example_lib example_recs None example_world = Inr (s, w')
         \<and> map index (routes s) = [0, 1])"
proof -
  have ok: "list_all supported_rec example_recs"
    by (simp add: example_recs_def supported_rec_def)
  have len: "[0..<length example_recs] = [0, 1]"
    by (simp add: example_recs_def upt_rec)
  from positional_indexing [of example_recs example_lib None example_world] ok
  obtain s w' where
    s: "Session_init example_lib example_recs None example_world = Inr (s, w')" by blast
  with positional_indexing [of example_recs example_lib None example_world]
  have "map index (routes s) = [0..<length example_recs]" by blast
  with s len ok show ?thesis by auto
qed

subsection \<open>Loading\<close>

text \<open>
  Claim C8 (first run). When the storage file does not exist, \<open>load\<close> returns a log
  with no sessions and raises nothing; its only effect is the line it logs.
\<close>

theorem load_first_run:
  "files w STORAGE_FILE_LOC = None \<Longrightarrow>
   load L w = Inr (\<lparr>sessions = []\<rparr>, info ''Loading TrainingLog from file'' w)"
  by (simp add: load_def Let_def info_def)

theorem load_first_run_witness:
  "files example_world STORAGE_FILE_LOC = None
   \<and> load example_lib example_world =
       Inr (\<lparr>sessions = []\<rparr>, info ''Loading TrainingLog from file'' example_world)"
proof -
  have h: "files example_world STORAGE_FILE_LOC = None" by (simp add: example_world_def)
  from h load_first_run [OF h] show ?thesis by simp
qed

subsection \<open>Writing\<close>




lemma update_file_files:
  "files (update_file L log file w) = (files w)(file \<mapsto> dump_jsons L log)"
  by (auto simp: update_file_def Let_def)

lemma update_file_other:
  "log_lines (update_file L log file w) = log_lines w"
  "next_ident (update_file L log file w) = next_ident w"
  by (auto simp: update_file_def Let_def)

lemma write_nonempty:
  assumes "sessions log \<noteq> []"
  shows "write L log w =
         Inr (update_file L log STORAGE_FILE_LOC
               (update_file L log (OLD_FILE_FORMAT (strftime (date (latest_session log))))
                 (info ''type: <class '__main__.Session'>'' w)))"
proof -
  let ?ys = "sort_key (\<lambda>session. date_key (date session)) (sessions log)"
  have "?ys \<noteq> []" using assms by (metis length_sort length_0_conv)
  then obtain x xs where "?ys = x # xs" by (cases ?ys) auto
  then show ?thesis
    by (simp add: write_def Let_def latest_session_def)
qed

lemma write_empty: "sessions log = [] \<Longrightarrow> write L log w = Inl IndexError"
  by (simp add: write_def)


subsection \<open>CSV input\<close>

lemma linebreak_facts: "is_linebreak LF" "is_linebreak CR" "LF \<noteq> CR" "CR \<noteq> LF"
  by (simp_all add: is_linebreak_def LF_def CR_def)

lemma split_lines_append_LF:
  "s \<noteq> [] \<Longrightarrow> \<not> is_linebreak (last s) \<or> last s = CR \<Longrightarrow>
   split_lines cur (s @ [LF]) = split_lines cur s"
proof (induction cur s rule: split_lines.induct)
  case (1 cur)
  then show ?case by simp
next
  case (2 cur c)
  then show ?case by (auto simp: linebreak_facts)
next
  case (3 cur c d ds)
  consider (crlf) "c = CR \<and> d = LF"
    | (brk) "\<not> (c = CR \<and> d = LF)" "is_linebreak c"
    | (chr) "\<not> (c = CR \<and> d = LF)" "\<not> is_linebreak c"
    by blast
  then show ?case
  proof cases
    case crlf
    have ne: "ds \<noteq> []"
      using "3.prems" crlf by (auto simp: linebreak_facts)
    then have "\<not> is_linebreak (last ds) \<or> last ds = CR"
      using "3.prems" by simp
    with ne have "split_lines [] (ds @ [LF]) = split_lines [] ds"
      using "3.IH"(1) [OF crlf] by blast
    then show ?thesis using crlf by simp
  next
    case brk
    have "split_lines [] ((d # ds) @ [LF]) = split_lines [] (d # ds)"
      using "3.IH"(2) [OF brk] "3.prems" by simp
    moreover from brk(1) have n: "(c = CR \<and> d = LF) = False" by blast
    ultimately show ?thesis using brk(2) by (simp add: n)
  next
    case chr
    have "split_lines (cur @ [c]) ((d # ds) @ [LF]) = split_lines (cur @ [c]) (d # ds)"
      using "3.IH"(3) [OF chr] "3.prems" by simp
    moreover from chr(1) have n: "(c = CR \<and> d = LF) = False" by blast
    ultimately show ?thesis using chr(2) by (simp add: n)
  qed
qed





text \<open>
  Claim C9 (trailing newline), as the code has it. For input that is not empty and does
  not already end at a line boundary (a lone carriage return apart), one more line feed
  at the end changes nothing.
\<close>

theorem trailing_newline:
  assumes "csv_str \<noteq> []" and "\<not> is_linebreak (last csv_str) \<or> last csv_str = CR"
  shows "from_csv_str L (csv_str @ [LF]) d w = from_csv_str L csv_str d w"
  using assms by (simp add: from_csv_str_def splitlines_def split_lines_append_LF)

subsection \<open>Round trips\<close>

lemma create_routes_length:
  "create_routes i recs = Inr rs \<Longrightarrow> length rs = length recs"
  by (induction recs arbitrary: i rs) (auto split: sum.splits)

lemma create_route_route_dict:
  "create_route i (RecDict (route_dict r)) = Inr (r\<lparr>index := i\<rparr>)"
  by (simp add: create_route_def route_dict_def)

lemma create_routes_route_dicts:
  "map index rs = [i..<i + length rs] \<Longrightarrow>
   create_routes i (map (\<lambda>route. RecDict (route_dict route)) rs) = Inr rs"
proof (induction rs arbitrary: i)
  case Nil
  then show ?case by simp
next
  case (Cons r rs)
  from Cons.prems have hd: "index r = i" and tl: "map index rs = [Suc i..<Suc i + length rs]"
    by (simp_all add: upt_rec)
  from hd have "r\<lparr>index := i\<rparr> = r" by simp
  with Cons.IH [OF tl] show ?case by (simp add: create_route_route_dict)
qed

lemma from_json_of_doc:
  assumes "loads L json_str = Inr (to_json_doc s)" and "indexed_by_position s"
  shows "from_json L json_str w =
         Inr (s\<lparr>ident := next_ident w\<rparr>, w\<lparr>next_ident := Suc (next_ident w)\<rparr>)"
proof -
  have "create_routes 0 (map (\<lambda>route. RecDict (route_dict route)) (routes s)) = Inr (routes s)"
    using assms(2) by (intro create_routes_route_dicts) (simp add: indexed_by_position_def)
  then show ?thesis
    using assms(1) by (simp add: from_json_def to_json_doc_def Session_init_def)
qed

lemma Session_init_indexed:
  assumes "Session_init L recs d w = Inr (s, w')"
  shows "indexed_by_position s"
proof -
  from assms obtain rs where rs: "create_routes 0 recs = Inr rs" and s: "routes s = rs"
    by (auto simp: Session_init_def Let_def split: sum.splits)
  from create_routes_index [OF rs] create_routes_length [OF rs] s
  show ?thesis by (simp add: indexed_by_position_def)
qed

text \<open>
  The module's part of the session round trip. The constructor undoes what \<open>to_json\<close>
  builds: when the decoder hands back the document the encoder was given, \<open>from_json\<close>
  makes a Session with the same date and the same ordered routes. Whether the library
  reads back what it wrote is not decided here.
\<close>

lemma constructor_inverts_to_json_doc:
  assumes "Session_init L recs d w0 = Inr (s, w1)"
    and "loads L (dumps L (to_json_doc s)) = Inr (to_json_doc s)"
  shows "\<exists>s' w'. from_json L (to_json L s) w = Inr (s', w')
           \<and> date s' = date s \<and> routes s' = routes s"
proof -
  have "indexed_by_position s" using assms(1) by (rule Session_init_indexed)
  with assms(2) have
    "from_json L (to_json L s) w =
     Inr (s\<lparr>ident := next_ident w\<rparr>, w\<lparr>next_ident := Suc (next_ident w)\<rparr>)"
    by (simp add: to_json_def from_json_of_doc)
  then show ?thesis by simp
qed

lemma read_lines_cons:
  "ys \<noteq> [] \<Longrightarrow>
   read_lines cur (c # ys) =
     (if c = CR \<and> hd ys = LF then (cur @ [LF]) # read_lines [] (tl ys)
      else if c = LF \<or> c = CR then (cur @ [LF]) # read_lines [] ys
      else read_lines (cur @ [c]) ys)"
  by (cases ys) simp_all

lemma LF_not_CR: "LF \<noteq> CR"
  by (simp add: LF_def CR_def)

lemma read_lines_line:
  "LF \<notin> set x \<Longrightarrow> CR \<notin> set x \<Longrightarrow>
   read_lines cur (x @ LF # rest) = (cur @ x @ [LF]) # read_lines [] rest"
proof (induction x arbitrary: cur)
  case Nil
  show ?case by (cases rest) (simp_all add: LF_not_CR)
next
  case (Cons c x)
  then have c: "c \<noteq> LF" "c \<noteq> CR" by auto
  have "read_lines cur (c # (x @ LF # rest)) = read_lines (cur @ [c]) (x @ LF # rest)"
    using c by (simp add: read_lines_cons)
  also have "\<dots> = ((cur @ [c]) @ x @ [LF]) # read_lines [] rest"
    using Cons.prems by (intro Cons.IH) auto
  finally show ?case by simp
qed

lemma read_lines_last:
  "x \<noteq> [] \<Longrightarrow> LF \<notin> set x \<Longrightarrow> CR \<notin> set x \<Longrightarrow> read_lines cur x = [cur @ x]"
proof (induction x arbitrary: cur)
  case Nil
  then show ?case by simp
next
  case (Cons c x)
  then have c: "c \<noteq> LF" "c \<noteq> CR" by auto
  show ?case
  proof (cases "x = []")
    case True
    with c show ?thesis by simp
  next
    case False
    then have "read_lines cur (c # x) = read_lines (cur @ [c]) x"
      using c by (simp add: read_lines_cons)
    also have "\<dots> = [(cur @ [c]) @ x]"
      using False Cons.prems by (intro Cons.IH) auto
    finally show ?thesis by simp
  qed
qed

lemma readlines_join:
  "\<forall>x\<in>set xs. x \<noteq> [] \<and> LF \<notin> set x \<and> CR \<notin> set x \<Longrightarrow>
   readlines (join [LF] xs) = file_lines xs"
proof (induction xs rule: file_lines.induct)
  case 1
  show ?case by (simp add: readlines_def)
next
  case (2 x)
  then show ?case by (simp add: readlines_def read_lines_last)
next
  case (3 x y ys)
  then have "readlines (join [LF] (y # ys)) = file_lines (y # ys)" by simp
  moreover have "read_lines [] (x @ LF # join [LF] (y # ys))
                 = ([] @ x @ [LF]) # read_lines [] (join [LF] (y # ys))"
    using 3(2) by (intro read_lines_line) auto
  ultimately show ?case by (simp add: readlines_def)
qed

lemma from_json_lines_docs:
  "list_all2 (\<lambda>l s. loads L l = Inr (to_json_doc s) \<and> indexed_by_position s) ls Ss \<Longrightarrow>
   from_json_lines L ls w =
     Inr (reloaded (next_ident w) Ss, w\<lparr>next_ident := next_ident w + length Ss\<rparr>)"
proof (induction ls Ss arbitrary: w rule: list_all2_induct)
  case Nil
  show ?case by simp
next
  case (Cons l ls s Ss)
  from Cons.hyps(1) have
    "from_json L l w = Inr (s\<lparr>ident := next_ident w\<rparr>, w\<lparr>next_ident := Suc (next_ident w)\<rparr>)"
    by (simp add: from_json_of_doc)
  with Cons.IH [of "w\<lparr>next_ident := Suc (next_ident w)\<rparr>"] show ?case by simp
qed

lemma file_lines_docs:
  "\<forall>s\<in>set Ss. indexed_by_position s \<and> codec_ok L (to_json_doc s) \<Longrightarrow>
   list_all2 (\<lambda>l s. loads L l = Inr (to_json_doc s) \<and> indexed_by_position s)
     (file_lines (map (to_json L) Ss)) Ss"
  by (induction Ss rule: induct_list012) (auto simp: codec_ok_def to_json_def)

lemma content_reloaded: "map content (reloaded n Ss) = map content Ss"
  by (induction Ss arbitrary: n) (simp_all add: content_def)

lemma load_dumped:
  assumes ok: "\<forall>s\<in>set Ss. indexed_by_position s \<and> codec_ok L (to_json_doc s)"
    and fl: "files w STORAGE_FILE_LOC = Some (dump_jsons L \<lparr>sessions = Ss\<rparr>)"
  shows "load L w =
         Inr (\<lparr>sessions = reloaded (next_ident w) Ss\<rparr>,
              (info ''Loading TrainingLog from file'' w)
                \<lparr>next_ident := next_ident w + length Ss\<rparr>)"
proof -
  let ?w1 = "info ''Loading TrainingLog from file'' w"
  have lines: "readlines (dump_jsons L \<lparr>sessions = Ss\<rparr>) = file_lines (map (to_json L) Ss)"
  proof -
    have "readlines (join [LF] (map (to_json L) Ss)) = file_lines (map (to_json L) Ss)"
      using ok by (intro readlines_join) (auto simp: codec_ok_def to_json_def)
    then show ?thesis by (simp add: dump_jsons_def)
  qed
  have "from_json_lines L (file_lines (map (to_json L) Ss)) ?w1 =
        Inr (reloaded (next_ident ?w1) Ss, ?w1\<lparr>next_ident := next_ident ?w1 + length Ss\<rparr>)"
    using file_lines_docs [OF ok] by (rule from_json_lines_docs)
  moreover have "next_ident ?w1 = next_ident w" by (simp add: info_def)
  moreover have "files ?w1 STORAGE_FILE_LOC = Some (dump_jsons L \<lparr>sessions = Ss\<rparr>)"
    using fl by (simp add: info_def)
  ultimately show ?thesis
    by (simp add: load_def Let_def lines)
qed

text \<open>
  The module's part of the journal round trip. Joining with line feeds and reading the
  lines back keeps the texts and their order: a log written to the storage file and loaded
  again gives Sessions of the same content, for sessions whose documents the codec
  writes on one line and reads back.
\<close>

lemma load_after_update_file:
  assumes "\<forall>s\<in>set Ss. indexed_by_position s \<and> codec_ok L (to_json_doc s)"
  shows "\<exists>log w'. load L (update_file L \<lparr>sessions = Ss\<rparr> STORAGE_FILE_LOC w) = Inr (log, w')
           \<and> map content (sessions log) = map content Ss"
proof -
  have "files (update_file L \<lparr>sessions = Ss\<rparr> STORAGE_FILE_LOC w) STORAGE_FILE_LOC
        = Some (dump_jsons L \<lparr>sessions = Ss\<rparr>)"
    by (simp add: update_file_files)
  from load_dumped [OF assms this] show ?thesis
    by (simp add: content_reloaded)
qed

subsection \<open>Examples of the round trips and of CSV input\<close>

lemma routes_of_one_route_csv:
  "routes_of_lines (splitlines one_route_csv) = Inr one_route_recs"
  by code_simp

lemma Session_init_one_route:
  "Session_init L one_route_recs (Some example_date) w =
   Inr (\<lparr>ident = next_ident w, date = example_date, routes = routes example_session\<rparr>,
        w\<lparr>next_ident := Suc (next_ident w)\<rparr>)"
  by (simp add: Session_init_def one_route_recs_def create_route_def example_session_def)

lemma from_csv_str_one_route:
  "from_csv_str L one_route_csv (Some example_date) w =
   Inr (\<lparr>ident = next_ident w, date = example_date, routes = routes example_session\<rparr>,
        w\<lparr>next_ident := Suc (next_ident w)\<rparr>)"
  by (simp add: from_csv_str_def routes_of_one_route_csv Session_init_one_route)

lemma codec_ok_examples:
  "codec_ok example_lib (to_json_doc example_session)"
  "codec_ok example_lib (to_json_doc earlier_session)"
  by code_simp+

lemma indexed_examples:
  "indexed_by_position example_session" "indexed_by_position earlier_session"
  by (simp_all add: indexed_by_position_def example_session_def earlier_session_def)



theorem trailing_newline_witness:
  "one_route_csv \<noteq> []
   \<and> \<not> is_linebreak (last one_route_csv)
   \<and> from_csv_str example_lib (one_route_csv @ [LF]) (Some example_date) example_world
     = from_csv_str example_lib one_route_csv (Some example_date) example_world"
proof -
  have a: "one_route_csv \<noteq> []" by (simp add: one_route_csv_def)
  have b: "\<not> is_linebreak (last one_route_csv)" by code_simp
  then have c: "\<not> is_linebreak (last one_route_csv) \<or> last one_route_csv = CR" by simp
  from a b trailing_newline [OF a c, of example_lib "Some example_date" example_world]
  show ?thesis by (intro conjI)
qed

theorem trailing_newline_counterexample:
  "isl (from_csv_str example_lib ((one_route_csv @ [LF]) @ [LF]) (Some example_date)
          example_world)
   \<and> \<not> isl (from_csv_str example_lib (one_route_csv @ [LF]) (Some example_date)
              example_world)"
proof -
  have "routes_of_lines (splitlines ((one_route_csv @ [LF]) @ [LF])) = Inl IndexError"
    by code_simp
  then have "isl (from_csv_str example_lib ((one_route_csv @ [LF]) @ [LF])
                    (Some example_date) example_world)"
    by (simp add: from_csv_str_def)
  moreover have "routes_of_lines (splitlines (one_route_csv @ [LF])) = Inr one_route_recs"
    by code_simp
  then have "\<not> isl (from_csv_str example_lib (one_route_csv @ [LF]) (Some example_date)
                      example_world)"
    by (simp add: from_csv_str_def Session_init_one_route)
  ultimately show ?thesis by (intro conjI)
qed

subsection \<open>Updating the journal\<close>

lemma Session_init_result:
  "Session_init L recs d w = Inr (s, w') \<Longrightarrow>
   ident s = next_ident w \<and> w' = w\<lparr>next_ident := Suc (next_ident w)\<rparr>"
  by (auto simp: Session_init_def Let_def split: sum.splits)

lemma from_json_lines_idents:
  "from_json_lines L ls w = Inr (ss, w') \<Longrightarrow>
   (\<forall>s\<in>set ss. ident s < next_ident w') \<and> next_ident w \<le> next_ident w'
   \<and> files w' = files w \<and> log_lines w' = log_lines w"
proof (induction ls arbitrary: w ss w')
  case Nil
  then show ?case by simp
next
  case (Cons l ls)
  from Cons.prems obtain s w1 ss' where
    s: "from_json L l w = Inr (s, w1)" and rest: "from_json_lines L ls w1 = Inr (ss', w')"
    and ss: "ss = s # ss'"
    by (auto split: sum.splits)
  from s have s1: "ident s = next_ident w" and w1: "w1 = w\<lparr>next_ident := Suc (next_ident w)\<rparr>"
    by (auto simp: from_json_def split: sum.splits dest: Session_init_result)
  from Cons.IH [OF rest] s1 w1 ss show ?case by auto
qed

lemma load_idents:
  assumes "load L w = Inr (log, w1)"
  shows "(\<forall>s\<in>set (sessions log). ident s < next_ident w1)
         \<and> files w1 = files w
         \<and> log_lines w1 = log_lines w @ [''Loading TrainingLog from file'']"
proof (cases "files w STORAGE_FILE_LOC")
  case None
  with assms show ?thesis by (auto simp: load_def Let_def info_def)
next
  case (Some body)
  with assms obtain ss where
    "from_json_lines L (readlines body) (info ''Loading TrainingLog from file'' w) = Inr (ss, w1)"
    and "log = \<lparr>sessions = ss\<rparr>"
    by (auto simp: load_def Let_def info_def split: sum.splits)
  with from_json_lines_idents [of L "readlines body" "info ''Loading TrainingLog from file'' w" ss w1]
  show ?thesis by (simp add: info_def)
qed

lemma from_csv_str_result:
  "from_csv_str L csv_str d w = Inr (s, w') \<Longrightarrow>
   ident s = next_ident w \<and> w' = w\<lparr>next_ident := Suc (next_ident w)\<rparr>"
  by (auto simp: from_csv_str_def split: sum.splits dest: Session_init_result)

lemma new_session_not_equal:
  assumes "load L w = Inr (log, w1)" and "from_csv_str L csv_str d w1 = Inr (s, w2)"
  shows "\<forall>x\<in>set (sessions log). \<not> session_eq s x"
  using load_idents [OF assms(1)] from_csv_str_result [OF assms(2)]
  by (auto simp: session_eq_def)

lemma update_from_csv_str_steps:
  assumes ld: "load L (info ''Loading'' w) = Inr (log, w1)"
    and ps: "from_csv_str L csv_str d w1 = Inr (s, w2)"
  shows "\<exists>w3. files w3 = files w2 \<and> next_ident w3 = next_ident w2
           \<and> update_from_csv_str L csv_str d w =
               write L (log\<lparr>sessions := sessions log @ [s]\<rparr>) (info ''Updating and writing'' w3)"
proof -
  let ?w3 = "if length (sessions log) \<noteq> 0
             then (if session_eq s (last (sessions log))
                   then info ''Skipping write, looks like a dupe last entry'' w2 else w2)
             else w2"
  have "files ?w3 = files w2" "next_ident ?w3 = next_ident w2"
    by (simp_all add: info_def)
  moreover have "update_from_csv_str L csv_str d w =
      write L (log\<lparr>sessions := sessions log @ [s]\<rparr>) (info ''Updating and writing'' ?w3)"
    using ld ps by (simp add: update_from_csv_str_def Let_def)
  ultimately show ?thesis by blast
qed

lemma join_snoc: "xs \<noteq> [] \<Longrightarrow> join sep (xs @ [x]) = join sep xs @ sep @ x"
  by (induction sep xs rule: join.induct) simp_all

lemma join_ends: "xs \<noteq> [] \<Longrightarrow> \<exists>pre. join sep xs = pre @ last xs"
  by (induction sep xs rule: join.induct) auto

lemma to_json_content: "content a = content b \<Longrightarrow> to_json L a = to_json L b"
  by (simp add: content_def to_json_def to_json_doc_def)

text \<open>
  Claim C4 (duplicate appends are not blocked). When the loaded log is not empty and the
  parsed Session has the content of its last Session, \<open>update_from_csv_str\<close> still
  appends and writes: the current file then holds the whole journal with the new Session
  after the old ones, so that it ends with two copies of the same line.
\<close>

theorem duplicate_append_not_blocked:
  assumes ld: "load L (info ''Loading'' w) = Inr (log, w1)"
    and ne: "sessions log \<noteq> []"
    and ps: "from_csv_str L csv_str d w1 = Inr (s, w2)"
    and dup: "content s = content (last (sessions log))"
  shows "\<exists>w' pre.
           update_from_csv_str L csv_str d w = Inr w'
         \<and> files w' STORAGE_FILE_LOC = Some (dump_jsons L \<lparr>sessions = sessions log @ [s]\<rparr>)
         \<and> dump_jsons L \<lparr>sessions = sessions log @ [s]\<rparr>
             = pre @ to_json L (last (sessions log)) @ [LF] @ to_json L (last (sessions log))"
proof -
  let ?log' = "log\<lparr>sessions := sessions log @ [s]\<rparr>"
  from update_from_csv_str_steps [OF ld ps] obtain w3 where
    up: "update_from_csv_str L csv_str d w = write L ?log' (info ''Updating and writing'' w3)"
    by blast
  have ne': "sessions ?log' \<noteq> []" by simp
  let ?w' = "update_file L ?log' STORAGE_FILE_LOC
               (update_file L ?log' (OLD_FILE_FORMAT (strftime (date (latest_session ?log'))))
                 (info ''type: <class '__main__.Session'>'' (info ''Updating and writing'' w3)))"
  have wr: "update_from_csv_str L csv_str d w = Inr ?w'"
    using up write_nonempty [OF ne'] by simp
  have same: "dump_jsons L ?log' = dump_jsons L \<lparr>sessions = sessions log @ [s]\<rparr>"
    by (simp add: dump_jsons_def)
  have fl: "files ?w' STORAGE_FILE_LOC = Some (dump_jsons L \<lparr>sessions = sessions log @ [s]\<rparr>)"
    by (simp add: update_file_files same)
  obtain pre where pre: "join [LF] (map (to_json L) (sessions log))
                         = pre @ to_json L (last (sessions log))"
    using join_ends [of "map (to_json L) (sessions log)" "[LF]"] ne
    by (auto simp: last_map)
  have "dump_jsons L \<lparr>sessions = sessions log @ [s]\<rparr>
        = join [LF] (map (to_json L) (sessions log)) @ [LF] @ to_json L s"
    using ne by (simp add: dump_jsons_def join_snoc)
  also have "\<dots> = pre @ to_json L (last (sessions log)) @ [LF] @ to_json L (last (sessions log))"
    using pre to_json_content [OF dup] by simp
  finally have two: "dump_jsons L \<lparr>sessions = sessions log @ [s]\<rparr>
        = pre @ to_json L (last (sessions log)) @ [LF] @ to_json L (last (sessions log))" .
  show ?thesis
    apply (rule exI [of _ ?w'])
    apply (rule exI [of _ pre])
    apply (intro conjI)
      apply (rule wr)
     apply (rule fl)
    apply (rule two)
    done
qed

lemma load_absent:
  "files w STORAGE_FILE_LOC = None \<Longrightarrow>
   load L w = Inr (\<lparr>sessions = []\<rparr>, info ''Loading TrainingLog from file'' w)"
  by (simp add: load_def Let_def info_def)

text \<open>
  Claim C10 (write on an empty log). \<open>write\<close> on a log without sessions fails with
  \<open>IndexError\<close>. Inside \<open>update_from_csv_str\<close> the log that is written has the new
  Session appended, so it is never empty, and the call succeeds whenever loading and
  parsing do.
\<close>

theorem write_empty_unreachable:
  "write L \<lparr>sessions = []\<rparr> w = Inl IndexError
   \<and> (\<forall>log w1 s w2.
         load L (info ''Loading'' w) = Inr (log, w1) \<longrightarrow>
         from_csv_str L csv_str d w1 = Inr (s, w2) \<longrightarrow>
           sessions (log\<lparr>sessions := sessions log @ [s]\<rparr>) \<noteq> []
         \<and> (\<exists>w'. update_from_csv_str L csv_str d w = Inr w'))"
proof (intro conjI allI impI)
  show "write L \<lparr>sessions = []\<rparr> w = Inl IndexError" by (simp add: write_empty)
next
  fix log w1 s w2
  show "sessions (log\<lparr>sessions := sessions log @ [s]\<rparr>) \<noteq> []" by simp
next
  fix log w1 s w2
  assume ld: "load L (info ''Loading'' w) = Inr (log, w1)"
    and ps: "from_csv_str L csv_str d w1 = Inr (s, w2)"
  have ne: "sessions (log\<lparr>sessions := sessions log @ [s]\<rparr>) \<noteq> []" by simp
  from update_from_csv_str_steps [OF ld ps] obtain w3 where
    "update_from_csv_str L csv_str d w =
       write L (log\<lparr>sessions := sessions log @ [s]\<rparr>) (info ''Updating and writing'' w3)"
    by blast
  then show "\<exists>w'. update_from_csv_str L csv_str d w = Inr w'"
    using write_nonempty [OF ne] by simp
qed

lemma update_from_csv_str_log:
  assumes "update_from_csv_str L csv_str d w = Inr w'"
  shows "log_lines w' =
         log_lines w @ [''Loading'', ''Loading TrainingLog from file'', ''Updating and writing'',
                        ''type: <class '__main__.Session'>'']"
proof -
  from assms obtain log w1 where ld: "load L (info ''Loading'' w) = Inr (log, w1)"
    by (auto simp: update_from_csv_str_def Let_def split: sum.splits)
  with assms obtain s w2 where ps: "from_csv_str L csv_str d w1 = Inr (s, w2)"
    by (auto simp: update_from_csv_str_def Let_def split: sum.splits)
  have neq: "sessions log \<noteq> [] \<Longrightarrow> \<not> session_eq s (last (sessions log))"
    using new_session_not_equal [OF ld ps] by simp
  let ?log' = "log\<lparr>sessions := sessions log @ [s]\<rparr>"
  have up: "update_from_csv_str L csv_str d w = write L ?log' (info ''Updating and writing'' w2)"
    using ld ps neq by (simp add: update_from_csv_str_def Let_def)
  have ne': "sessions ?log' \<noteq> []" by simp
  have l1: "log_lines w1 = log_lines w @ [''Loading'', ''Loading TrainingLog from file'']"
    using load_idents [OF ld] by (simp add: info_def)
  have l2: "log_lines w2 = log_lines w1"
    using from_csv_str_result [OF ps] by simp
  from assms up write_nonempty [OF ne', of L "info ''Updating and writing'' w2"]
  have "w' = update_file L ?log' STORAGE_FILE_LOC
               (update_file L ?log' (OLD_FILE_FORMAT (strftime (date (latest_session ?log'))))
                 (info ''type: <class '__main__.Session'>'' (info ''Updating and writing'' w2)))"
    by simp
  then show ?thesis
    by (simp add: update_file_other info_def l1 l2)
qed

lemma load_journal_world:
  "load example_lib (info ''Loading'' journal_world) =
   Inr (\<lparr>sessions = [example_session]\<rparr>,
        (info ''Loading TrainingLog from file'' (info ''Loading'' journal_world))
          \<lparr>next_ident := 1\<rparr>)"
proof -
  have ok: "\<forall>s\<in>set [example_session].
              indexed_by_position s \<and> codec_ok example_lib (to_json_doc s)"
    using indexed_examples(1) codec_ok_examples(1) by simp
  have fl: "files (info ''Loading'' journal_world) STORAGE_FILE_LOC
            = Some (dump_jsons example_lib \<lparr>sessions = [example_session]\<rparr>)"
    by (simp add: journal_world_def info_def dump_jsons_def)
  have id: "example_session\<lparr>ident := 0\<rparr> = example_session"
    by (simp add: example_session_def)
  have n: "next_ident (info ''Loading'' journal_world) = 0"
    by (simp add: journal_world_def info_def)
  from load_dumped [OF ok fl] show ?thesis
    by (simp add: n id)
qed

text \<open>
  Claim C3 (equality in the duplicate check). The comparison of the new Session with the
  last one is the default \<open>==\<close> of objects, identity, not a comparison of content. On a
  journal that holds one session and CSV input of the same date and routes, the two
  Sessions have the same content, the comparison is false, and the line about a
  duplicate is not logged.
\<close>

theorem duplicate_check_compares_identity:
  "\<exists>w1 s w2 w'.
     load example_lib (info ''Loading'' journal_world)
       = Inr (\<lparr>sessions = [example_session]\<rparr>, w1)
   \<and> from_csv_str example_lib one_route_csv (Some example_date) w1 = Inr (s, w2)
   \<and> content s = content example_session
   \<and> \<not> session_eq s example_session
   \<and> update_from_csv_str example_lib one_route_csv (Some example_date) journal_world = Inr w'
   \<and> ''Skipping write, looks like a dupe last entry'' \<notin> set (log_lines w')"
proof -
  let ?w1 = "(info ''Loading TrainingLog from file'' (info ''Loading'' journal_world))
               \<lparr>next_ident := 1\<rparr>"
  let ?s = "\<lparr>ident = next_ident ?w1, date = example_date, routes = routes example_session\<rparr>"
  let ?w2 = "?w1\<lparr>next_ident := Suc (next_ident ?w1)\<rparr>"
  have ld: "load example_lib (info ''Loading'' journal_world)
            = Inr (\<lparr>sessions = [example_session]\<rparr>, ?w1)"
    by (rule load_journal_world)
  have ps: "from_csv_str example_lib one_route_csv (Some example_date) ?w1 = Inr (?s, ?w2)"
    by (rule from_csv_str_one_route)
  have same: "content ?s = content example_session"
    by (simp add: content_def example_session_def)
  have diff: "\<not> session_eq ?s example_session"
    by (simp add: session_eq_def example_session_def)
  from update_from_csv_str_steps [OF ld ps] obtain w3 where
    up: "update_from_csv_str example_lib one_route_csv (Some example_date) journal_world =
         write example_lib (\<lparr>sessions = [example_session]\<rparr>\<lparr>sessions := sessions \<lparr>sessions = [example_session]\<rparr> @ [?s]\<rparr>)
           (info ''Updating and writing'' w3)"
    by blast
  have "sessions (\<lparr>sessions = [example_session]\<rparr>\<lparr>sessions := sessions \<lparr>sessions = [example_session]\<rparr> @ [?s]\<rparr>) \<noteq> []"
    by simp
  from write_nonempty [OF this] up obtain w' where
    w': "update_from_csv_str example_lib one_route_csv (Some example_date) journal_world = Inr w'"
    by simp
  have "log_lines w' =
        log_lines journal_world @ [''Loading'', ''Loading TrainingLog from file'',
          ''Updating and writing'', ''type: <class '__main__.Session'>'']"
    using w' by (rule update_from_csv_str_log)
  then have nolog: "''Skipping write, looks like a dupe last entry'' \<notin> set (log_lines w')"
    by (simp add: journal_world_def)
  show ?thesis
    apply (rule exI [of _ ?w1])
    apply (rule exI [of _ ?s])
    apply (rule exI [of _ ?w2])
    apply (rule exI [of _ w'])
    apply (intro conjI)
         apply (rule ld)
        apply (rule ps)
       apply (rule same)
      apply (rule diff)
     apply (rule w')
    apply (rule nolog)
    done
qed

theorem duplicate_append_not_blocked_witness:
  "\<exists>w1 s w2.
     load example_lib (info ''Loading'' journal_world)
       = Inr (\<lparr>sessions = [example_session]\<rparr>, w1)
   \<and> sessions \<lparr>sessions = [example_session]\<rparr> \<noteq> []
   \<and> from_csv_str example_lib one_route_csv (Some example_date) w1 = Inr (s, w2)
   \<and> content s = content (last (sessions \<lparr>sessions = [example_session]\<rparr>))
   \<and> (\<exists>w' pre.
         update_from_csv_str example_lib one_route_csv (Some example_date) journal_world = Inr w'
       \<and> files w' STORAGE_FILE_LOC
           = Some (dump_jsons example_lib
                     \<lparr>sessions = sessions \<lparr>sessions = [example_session]\<rparr> @ [s]\<rparr>)
       \<and> dump_jsons example_lib \<lparr>sessions = sessions \<lparr>sessions = [example_session]\<rparr> @ [s]\<rparr>
           = pre @ to_json example_lib (last (sessions \<lparr>sessions = [example_session]\<rparr>))
               @ [LF] @ to_json example_lib (last (sessions \<lparr>sessions = [example_session]\<rparr>)))"
proof -
  let ?log = "\<lparr>sessions = [example_session]\<rparr>"
  let ?w1 = "(info ''Loading TrainingLog from file'' (info ''Loading'' journal_world))
               \<lparr>next_ident := 1\<rparr>"
  let ?s = "\<lparr>ident = next_ident ?w1, date = example_date, routes = routes example_session\<rparr>"
  let ?w2 = "?w1\<lparr>next_ident := Suc (next_ident ?w1)\<rparr>"
  have ld: "load example_lib (info ''Loading'' journal_world) = Inr (?log, ?w1)"
    by (rule load_journal_world)
  have ne: "sessions ?log \<noteq> []" by simp
  have ps: "from_csv_str example_lib one_route_csv (Some example_date) ?w1 = Inr (?s, ?w2)"
    by (rule from_csv_str_one_route)
  have dup: "content ?s = content (last (sessions ?log))"
    by (simp add: content_def example_session_def)
  note concl = duplicate_append_not_blocked [OF ld ne ps dup]
  show ?thesis
    apply (rule exI [of _ ?w1])
    apply (rule exI [of _ ?s])
    apply (rule exI [of _ ?w2])
    apply (intro conjI)
        apply (rule ld)
       apply (rule ne)
      apply (rule ps)
     apply (rule dup)
    apply (rule concl)
    done
qed

theorem write_empty_unreachable_witness:
  "\<exists>w1 s w2 w'.
     load example_lib (info ''Loading'' example_world) = Inr (\<lparr>sessions = []\<rparr>, w1)
   \<and> from_csv_str example_lib one_route_csv (Some example_date) w1 = Inr (s, w2)
   \<and> update_from_csv_str example_lib one_route_csv (Some example_date) example_world = Inr w'"
proof -
  let ?w1 = "info ''Loading TrainingLog from file'' (info ''Loading'' example_world)"
  let ?s = "\<lparr>ident = next_ident ?w1, date = example_date, routes = routes example_session\<rparr>"
  let ?w2 = "?w1\<lparr>next_ident := Suc (next_ident ?w1)\<rparr>"
  have ld: "load example_lib (info ''Loading'' example_world) = Inr (\<lparr>sessions = []\<rparr>, ?w1)"
    by (rule load_absent) (simp add: info_def example_world_def)
  have ps: "from_csv_str example_lib one_route_csv (Some example_date) ?w1 = Inr (?s, ?w2)"
    by (rule from_csv_str_one_route)
  from write_empty_unreachable
    [of example_lib example_world one_route_csv "Some example_date"] ld ps
  obtain w' where
    w': "update_from_csv_str example_lib one_route_csv (Some example_date) example_world = Inr w'"
    by blast
  show ?thesis
    apply (rule exI [of _ ?w1])
    apply (rule exI [of _ ?s])
    apply (rule exI [of _ ?w2])
    apply (rule exI [of _ w'])
    apply (intro conjI)
      apply (rule ld)
     apply (rule ps)
    apply (rule w')
    done
qed

end
